theory Spec2Isabelle
  imports Main "HOL-Library.Sublist"
begin

section \<open>Python string primitives used by ime2.py\<close>

text \<open>
  Strings are ASCII character lists. \<open>isspace\<close> is Python's \<open>str.isspace\<close> on the ASCII
  range (tab to carriage return, the four separators 0x1c to 0x1f, and space);
  \<open>strip\<close> is \<open>str.strip()\<close>; \<open>lower\<close> is \<open>str.lower()\<close>, which on ASCII maps
  the 26 capital letters and leaves every other character alone; \<open>contains k s\<close> is
  Python's \<open>k in s\<close> on strings.
\<close>

definition isspace :: "char \<Rightarrow> bool" where
  "isspace c = (let n = (of_char c :: nat) in (9 \<le> n \<and> n \<le> 13) \<or> (28 \<le> n \<and> n \<le> 32))"

definition strip :: "string \<Rightarrow> string" where
  "strip s = rev (dropWhile isspace (rev (dropWhile isspace s)))"

definition ascii_uppercase :: string where
  "ascii_uppercase = ''ABCDEFGHIJKLMNOPQRSTUVWXYZ''"

definition ascii_lowercase :: string where
  "ascii_lowercase = ''abcdefghijklmnopqrstuvwxyz''"

definition lower_char :: "char \<Rightarrow> char" where
  "lower_char c =
     (case map_of (zip ascii_uppercase ascii_lowercase) c of Some l \<Rightarrow> l | None \<Rightarrow> c)"

definition lower :: "string \<Rightarrow> string" where
  "lower s = map lower_char s"

fun contains :: "string \<Rightarrow> string \<Rightarrow> bool" where
  "contains k [] = (k = [])"
| "contains k (c # cs) = (prefix k (c # cs) \<or> contains k cs)"

text \<open>\<open>str(i)\<close> of a non-negative integer, as an f-string prints it.\<close>

definition digit_char :: "nat \<Rightarrow> char" where
  "digit_char d = ''0123456789'' ! d"

function str :: "nat \<Rightarrow> string" where
  "str n = (if n < 10 then [digit_char n] else str (n div 10) @ [digit_char (n mod 10)])"
  by pat_completeness auto
termination
  by (relation "measure (\<lambda>n. n)") auto

declare str.simps [simp del]

text \<open>\<open>s.split(',')\<close>.\<close>

fun split_comma :: "string \<Rightarrow> string list" where
  "split_comma [] = [[]]"
| "split_comma (c # cs) =
     (if c = CHR '','' then [] # split_comma cs
      else (case split_comma cs of p # ps \<Rightarrow> (c # p) # ps | [] \<Rightarrow> [[c]]))"

section \<open>Errors\<close>

text \<open>
  \<open>ValueError\<close> is the exception class the request handler answers with status 400;
  \<open>OtherException\<close> stands for every other subclass of \<open>Exception\<close> (status 500).
\<close>

datatype error = ValueError string | OtherException string

section \<open>Corpus loading: \<open>load_ae_terms_from_csv\<close>\<close>

text \<open>
  What \<open>pd.read_csv(filepath, header=None)\<close> finds at a path: no file
  (\<open>FileNotFoundError\<close>), any other exception, or the first column, a cell being
  \<open>None\<close> where pandas reads NaN (\<open>dropna\<close> removes those).
\<close>

datatype csv_file = FileNotFound | ReadFailure string | Column "string option list"

definition load_terms :: "csv_file \<Rightarrow> error + string set" where
  "load_terms filepath =
     (case filepath of
        FileNotFound \<Rightarrow> Inr {}
      | ReadFailure msg \<Rightarrow> Inl (OtherException msg)
      | Column cells \<Rightarrow> Inr ((\<lambda>term. strip (lower term)) ` set (List.map_filter id cells)))"

definition load_ae_terms_from_csv ::
  "csv_file \<Rightarrow> csv_file \<Rightarrow> csv_file \<Rightarrow> error + (string set \<times> string set \<times> string set)" where
  "load_ae_terms_from_csv MEDICALLY_SIGNIFICANT_PATH SIGNIFICANT_DISABILITY_PATH CONGENITAL_ANOMALY_PATH =
     (case load_terms MEDICALLY_SIGNIFICANT_PATH of
        Inl e \<Rightarrow> Inl e
      | Inr medically_significant_terms \<Rightarrow>
     (case load_terms SIGNIFICANT_DISABILITY_PATH of
        Inl e \<Rightarrow> Inl e
      | Inr significant_disability_terms \<Rightarrow>
     (case load_terms CONGENITAL_ANOMALY_PATH of
        Inl e \<Rightarrow> Inl e
      | Inr congenital_anomaly_terms \<Rightarrow>
          Inr (medically_significant_terms, significant_disability_terms,
               congenital_anomaly_terms))))"

section \<open>Severity resolution\<close>

text \<open>\<open>any(keyword in s for keyword in keywords)\<close>.\<close>

definition any_keyword_in :: "string set \<Rightarrow> string \<Rightarrow> bool" where
  "any_keyword_in keywords s = (\<exists>keyword\<in>keywords. contains keyword s)"

definition check_csv_severity ::
  "string \<Rightarrow> string set \<Rightarrow> string set \<Rightarrow> string set \<Rightarrow> string option" where
  "check_csv_severity ae_term medically_significant_terms significant_disability_terms
       congenital_anomaly_terms =
     (let ae_term_lower = strip (lower ae_term) in
      if any_keyword_in significant_disability_terms ae_term_lower
      then Some ''Significant disability or incapacity''
      else if any_keyword_in congenital_anomaly_terms ae_term_lower
      then Some ''Congenital anomaly or birth defect''
      else if any_keyword_in medically_significant_terms ae_term_lower
      then Some ''Medically significant''
      else None)"

definition severity_rules ::
  "string set \<Rightarrow> string set \<Rightarrow> string set \<Rightarrow> (string set \<times> string) list" where
  "severity_rules medically_significant_terms significant_disability_terms
       congenital_anomaly_terms =
     [({''death'', ''fatal'', ''mortality'', ''died'', ''passed away'', ''deceased'',
        ''expired'', ''demise''}, ''Fatal or death''),
      ({''life-threatening'', ''ventilator'', ''emergency intervention'',
        ''critical condition'', ''near death'', ''almost died'', ''intensive care''},
       ''Life threatening''),
      ({''hospitalization'', ''hospital'', ''admitted'', ''admission'', ''emergency room'',
        ''ER visit''}, ''Inpatient hospitalization or prolongation of hospitalization''),
      (significant_disability_terms, ''Significant disability or incapacity''),
      (congenital_anomaly_terms, ''Congenital anomaly or birth defect''),
      (medically_significant_terms, ''Medically significant'')]"

fun first_matching_rule :: "(string set \<times> string) list \<Rightarrow> string \<Rightarrow> string" where
  "first_matching_rule [] ae_term_lower = ''None of the above''"
| "first_matching_rule ((keywords, severity) # rules) ae_term_lower =
     (if any_keyword_in keywords ae_term_lower then severity
      else first_matching_rule rules ae_term_lower)"

definition determine_adr_severity_for_diagnosed ::
  "string \<Rightarrow> string set \<Rightarrow> string set \<Rightarrow> string set \<Rightarrow> string" where
  "determine_adr_severity_for_diagnosed ae_term medically_significant_terms
       significant_disability_terms congenital_anomaly_terms =
     first_matching_rule
       (severity_rules medically_significant_terms significant_disability_terms
          congenital_anomaly_terms)
       (strip (lower ae_term))"

definition severity_priority :: "string list" where
  "severity_priority =
     [''Fatal or death'',
      ''Life threatening'',
      ''Inpatient hospitalization or prolongation of hospitalization'',
      ''Congenital anomaly or birth defect'',
      ''Significant disability or incapacity'',
      ''Medically significant'',
      ''None of the above'']"

text \<open>Lines 406 to 408 of \<open>analyze_text\<close>: the seriousness label of a final severity.\<close>

definition seriousness_of :: "string \<Rightarrow> string" where
  "seriousness_of final_severity =
     (if final_severity \<in> set (butlast severity_priority) then ''Serious'' else ''Non-Serious'')"

section \<open>Events\<close>

text \<open>
  An entry of the oracle's \<open>Adverse_Events\<close> list: a JSON object whose \<open>Term\<close> and
  \<open>Severity\<close> are strings when present (\<open>None\<close>: the key is absent). An \<open>event\<close> is
  the dictionary \<open>extract_medical_information\<close> builds, always with its three keys.
\<close>

record raw_event =
  raw_Term :: "string option"
  raw_Severity :: "string option"

record event =
  Term :: string
  Severity :: string
  Is_Diagnosis :: bool

text \<open>
  The body of the loop of \<open>analyze_text\<close> up to the seriousness: \<open>None\<close> when the
  record is skipped by \<open>continue\<close>, otherwise the term, the final severity and the
  seriousness that are written to the response.
\<close>

definition resolve_event ::
  "string set \<Rightarrow> string set \<Rightarrow> string set \<Rightarrow> event \<Rightarrow> (string \<times> string \<times> string) option" where
  "resolve_event medically_significant_terms significant_disability_terms
       congenital_anomaly_terms event =
     (let ae_term = strip (Term event) in
      if ae_term = [] then None
      else
        let ai_severity0 = Severity event;
            ai_severity =
              (if ai_severity0 = [] \<or> strip ai_severity0 = [] \<or> ai_severity0 = ''To be determined''
               then (if Is_Diagnosis event
                     then determine_adr_severity_for_diagnosed ae_term
                            medically_significant_terms significant_disability_terms
                            congenital_anomaly_terms
                     else ''None of the above'')
               else ai_severity0);
            csv_severity = check_csv_severity ae_term medically_significant_terms
                             significant_disability_terms congenital_anomaly_terms;
            final_severity = (case csv_severity of Some s \<Rightarrow> s | None \<Rightarrow> ai_severity)
        in Some (ae_term, final_severity, seriousness_of final_severity))"

text \<open>
  The loop \<open>for i, event in enumerate(events, 1)\<close> with the response dictionary as
  state; \<open>i\<close> advances on every record, skipped or not.
\<close>

fun process_events ::
  "string set \<Rightarrow> string set \<Rightarrow> string set \<Rightarrow> nat \<Rightarrow> event list \<Rightarrow>
   (string \<rightharpoonup> string) \<Rightarrow> (string \<rightharpoonup> string)" where
  "process_events ms sd ca i [] response_data = response_data"
| "process_events ms sd ca i (event # events) response_data =
     (case resolve_event ms sd ca event of
        None \<Rightarrow> process_events ms sd ca (Suc i) events response_data
      | Some (ae_term, final_severity, seriousness) \<Rightarrow>
          process_events ms sd ca (Suc i) events
            (if i = 1
             then response_data
                    (''Adverse_Event_Terms'' \<mapsto> ae_term,
                     ''Side_Effect_Severity'' \<mapsto> final_severity,
                     ''Side_Effect_Seriousness'' \<mapsto> seriousness)
             else response_data
                    (''Adverse_Event_Terms'' @ str i \<mapsto> ae_term,
                     ''Side_Effect_Severity'' @ str i \<mapsto> final_severity,
                     ''Side_Effect_Seriousness'' @ str i \<mapsto> seriousness)))"

text \<open>Lines 361 to 418: the response built from the extractor's record list.\<close>

definition assemble ::
  "string set \<Rightarrow> string set \<Rightarrow> string set \<Rightarrow> event list \<Rightarrow> (string \<rightharpoonup> string)" where
  "assemble ms sd ca result = process_events ms sd ca 1 (take 5 result) Map.empty"

text \<open>The field name the loop writes at index \<open>i\<close>.\<close>

definition field_name :: "string \<Rightarrow> nat \<Rightarrow> string" where
  "field_name base i = (if i = 1 then base else base @ str i)"

section \<open>Parsing the oracle's reply: \<open>safe_json_loads\<close>\<close>

text \<open>
  A parsed reply: something that is not a dictionary, or a dictionary with or without
  the key \<open>Adverse_Events\<close>. \<open>json.loads\<close> and \<open>eval\<close> are library functions and are
  parameters of the model (\<open>None\<close>: the call raised an exception).
\<close>

datatype reply = NotADict | Dict "raw_event list option"

text \<open>\<open>re.sub(r'```(json)?|```', '', text)\<close>.\<close>

function remove_code_markers :: "string \<Rightarrow> string" where
  "remove_code_markers [] = []"
| "remove_code_markers (c # cs) =
     (if prefix ''```json'' (c # cs) then remove_code_markers (drop 6 cs)
      else if prefix ''```'' (c # cs) then remove_code_markers (drop 2 cs)
      else c # remove_code_markers cs)"
  by pat_completeness auto
termination
  by (relation "measure length") auto

text \<open>
  \<open>re.search(r'\{.*\}', t, re.DOTALL).group(0)\<close>: from the first opening brace to the
  last closing brace after it; \<open>None\<close> when there is no match (\<open>.group\<close> then raises).
\<close>

definition brace_span :: "string \<Rightarrow> string option" where
  "brace_span t =
     (let rest = dropWhile (\<lambda>c. c \<noteq> CHR ''{'') t in
      if rest = [] then None
      else
        let r = dropWhile (\<lambda>c. c \<noteq> CHR ''}'') (rev (tl rest)) in
        if r = [] then None else Some (CHR ''{'' # rev r))"

fun try_strategies :: "(string \<Rightarrow> reply option) list \<Rightarrow> string \<Rightarrow> error + reply" where
  "try_strategies [] text =
     Inl (ValueError ''Could not parse JSON after trying multiple strategies'')"
| "try_strategies (strategy # strategies) text =
     (case strategy text of
        Some parsed \<Rightarrow> Inr parsed
      | None \<Rightarrow> try_strategies strategies text)"

definition parsing_strategies ::
  "(string \<Rightarrow> reply option) \<Rightarrow> (string \<Rightarrow> reply option) \<Rightarrow> (string \<Rightarrow> reply option) list" where
  "parsing_strategies json_loads py_eval =
     [json_loads,
      (\<lambda>t. case brace_span t of None \<Rightarrow> None | Some s \<Rightarrow> json_loads s),
      py_eval]"

definition safe_json_loads ::
  "(string \<Rightarrow> reply option) \<Rightarrow> (string \<Rightarrow> reply option) \<Rightarrow> string \<Rightarrow> error + reply" where
  "safe_json_loads json_loads py_eval text =
     try_strategies (parsing_strategies json_loads py_eval)
       (strip (remove_code_markers (strip text)))"

section \<open>Extraction: \<open>extract_medical_information\<close>\<close>

text \<open>
  The calls that leave the process: the value \<open>call_diagnostic_ollama\<close> returns for a
  text (it never raises), what \<open>call_ollama\<close> returns or raises for the extraction
  prompt of a text, and the two library parsers.
\<close>

record env =
  call_diagnostic_ollama :: "string \<Rightarrow> string"
  call_ollama :: "string \<Rightarrow> error + string"
  json_loads :: "string \<Rightarrow> reply option"
  py_eval :: "string \<Rightarrow> reply option"

definition diagnosis_events :: "string \<Rightarrow> event list" where
  "diagnosis_events diagnosed_condition =
     (if CHR '','' \<in> set diagnosed_condition
      then map (\<lambda>condition. \<lparr>Term = condition, Severity = ''To be determined'',
                             Is_Diagnosis = True\<rparr>)
             (map strip (filter (\<lambda>condition. strip condition \<noteq> [])
                           (split_comma diagnosed_condition)))
      else [\<lparr>Term = strip diagnosed_condition, Severity = ''To be determined'',
              Is_Diagnosis = True\<rparr>])"

text \<open>Lines 308 to 326: the loop over the oracle's entries, with \<open>events\<close> and \<open>seen_terms\<close> as state.\<close>

fun dedup_loop :: "raw_event list \<Rightarrow> event list \<Rightarrow> string set \<Rightarrow> event list" where
  "dedup_loop [] events seen_terms = events"
| "dedup_loop (ev # rest) events seen_terms =
     (let event_term = strip (case raw_Term ev of None \<Rightarrow> [] | Some t \<Rightarrow> t);
          event_severity = (case raw_Severity ev of None \<Rightarrow> ''None of the above'' | Some s \<Rightarrow> s)
      in
        if event_term = [] then dedup_loop rest events seen_terms
        else
          let term_lower = strip (lower event_term) in
          if term_lower \<notin> seen_terms
          then dedup_loop rest
                 (events @ [\<lparr>Term = event_term, Severity = event_severity, Is_Diagnosis = False\<rparr>])
                 (insert term_lower seen_terms)
          else dedup_loop rest events seen_terms)"

definition deduplicate :: "raw_event list \<Rightarrow> event list" where
  "deduplicate adverse_events = take 5 (dedup_loop adverse_events [] {})"

definition extract_medical_information :: "env \<Rightarrow> string \<Rightarrow> error + event list" where
  "extract_medical_information E text =
     (let diagnosed_condition = call_diagnostic_ollama E text in
      if diagnosed_condition \<noteq> [] \<and> strip diagnosed_condition \<noteq> []
      then Inr (diagnosis_events diagnosed_condition)
      else
        (case call_ollama E text of
           Inl e \<Rightarrow> Inl e
         | Inr response_text \<Rightarrow>
        (case safe_json_loads (json_loads E) (py_eval E) response_text of
           Inl e \<Rightarrow> Inl e
         | Inr NotADict \<Rightarrow> Inl (ValueError ''Invalid response format'')
         | Inr (Dict None) \<Rightarrow> Inl (ValueError ''Invalid response format'')
         | Inr (Dict (Some adverse_events)) \<Rightarrow> Inr (deduplicate adverse_events))))"

section \<open>The request handler: \<open>analyze_text\<close>\<close>

text \<open>
  A request is not JSON, or a JSON object with or without the key \<open>text\<close>. A response
  is the dictionary of output fields with status 200, or an error message with status
  400 or 500.
\<close>

datatype request = NotJson | JsonBody "string option"

datatype response = Ok200 "string \<rightharpoonup> string" | Error400 string | Error500 string

definition analyze_text ::
  "env \<Rightarrow> string set \<Rightarrow> string set \<Rightarrow> string set \<Rightarrow> request \<Rightarrow> response" where
  "analyze_text E medically_significant_terms significant_disability_terms
       congenital_anomaly_terms req =
     (case req of
        NotJson \<Rightarrow> Error400 ''Request must be JSON''
      | JsonBody data_text \<Rightarrow>
          (let text = strip (case data_text of None \<Rightarrow> [] | Some t \<Rightarrow> t) in
           if text = [] then Error400 ''No text provided for analysis''
           else
             (case extract_medical_information E text of
                Inl (ValueError msg) \<Rightarrow> Error400 msg
              | Inl (OtherException msg) \<Rightarrow> Error500 ''Internal server error''
              | Inr result \<Rightarrow>
                  Ok200 (assemble medically_significant_terms significant_disability_terms
                           congenital_anomaly_terms result))))"

section \<open>Auxiliary notions for stating the properties\<close>

text \<open>The three output field families of the response.\<close>

definition bases :: "string set" where
  "bases = {''Adverse_Event_Terms'', ''Side_Effect_Severity'', ''Side_Effect_Seriousness''}"

text \<open>The three output fields of index \<open>i\<close> in a response, and the update that writes them.\<close>

definition fields_at ::
  "(string \<rightharpoonup> string) \<Rightarrow> nat \<Rightarrow> string option \<times> string option \<times> string option" where
  "fields_at response_data i =
     (response_data (field_name ''Adverse_Event_Terms'' i),
      response_data (field_name ''Side_Effect_Severity'' i),
      response_data (field_name ''Side_Effect_Seriousness'' i))"

definition write_fields ::
  "(string \<rightharpoonup> string) \<Rightarrow> nat \<Rightarrow> string \<times> string \<times> string \<Rightarrow> (string \<rightharpoonup> string)" where
  "write_fields response_data i r =
     (case r of (ae_term, final_severity, seriousness) \<Rightarrow>
        response_data
          (field_name ''Adverse_Event_Terms'' i \<mapsto> ae_term,
           field_name ''Side_Effect_Severity'' i \<mapsto> final_severity,
           field_name ''Side_Effect_Seriousness'' i \<mapsto> seriousness))"

text \<open>
  The dictionary the extraction loop appends for an oracle entry, and the comparison key
  \<open>term_lower\<close> the loop computes from its term.
\<close>

definition event_of :: "raw_event \<Rightarrow> event" where
  "event_of ev =
     \<lparr>Term = strip (case raw_Term ev of None \<Rightarrow> [] | Some t \<Rightarrow> t),
      Severity = (case raw_Severity ev of None \<Rightarrow> ''None of the above'' | Some s \<Rightarrow> s),
      Is_Diagnosis = False\<rparr>"

definition term_key :: "event \<Rightarrow> string" where
  "term_key e = strip (lower (Term e))"

text \<open>
  Deduplication as section 4.3 of the specification words it, for comparison with the loop
  of the source: keep the first-seen record of each comparison key, discard the later
  ones, keep the order, and truncate to the first 5 surviving records.
\<close>

fun keep_first_seen :: "event list \<Rightarrow> event list" where
  "keep_first_seen [] = []"
| "keep_first_seen (e # es) =
     e # keep_first_seen (filter (\<lambda>x. term_key x \<noteq> term_key e) es)"

definition spec_deduplicate :: "event list \<Rightarrow> event list" where
  "spec_deduplicate entries = take 5 (keep_first_seen entries)"


section \<open>Facts about the string primitives\<close>

lemmas string_eval =
  strip_def isspace_def lower_def lower_char_def ascii_uppercase_def ascii_lowercase_def

text \<open>\<open>contains\<close> is contiguous substring containment.\<close>

lemma contains_iff: "contains k s \<longleftrightarrow> (\<exists>pre suf. s = pre @ k @ suf)"
proof (induction s)
  case Nil
  then show ?case by simp
next
  case (Cons c cs)
  show ?case
  proof
    assume "contains k (c # cs)"
    then consider "prefix k (c # cs)" | "contains k cs" by auto
    then show "\<exists>pre suf. c # cs = pre @ k @ suf"
    proof cases
      case 1
      then obtain suf where "c # cs = k @ suf" by (auto simp: prefix_def)
      then have "c # cs = [] @ k @ suf" by simp
      then show ?thesis by blast
    next
      case 2
      with Cons.IH obtain pre suf where "cs = pre @ k @ suf" by blast
      then have "c # cs = (c # pre) @ k @ suf" by simp
      then show ?thesis by blast
    qed
  next
    assume "\<exists>pre suf. c # cs = pre @ k @ suf"
    then obtain pre suf where eq: "c # cs = pre @ k @ suf" by blast
    show "contains k (c # cs)"
    proof (cases pre)
      case Nil
      with eq have "prefix k (c # cs)" by (simp add: prefix_def)
      then show ?thesis by simp
    next
      case (Cons p ps)
      with eq have "cs = ps @ k @ suf" by simp
      with Cons.IH have "contains k cs" by blast
      then show ?thesis by simp
    qed
  qed
qed

lemma contains_set: "contains k s \<Longrightarrow> set k \<subseteq> set s"
  by (auto simp: contains_iff)

lemma isspace_lower_char: "isspace (lower_char c) = isspace c"
  by (auto simp: string_eval split: if_splits)

lemma lower_char_not_upper: "lower_char c \<notin> set ascii_uppercase"
  by (auto simp: string_eval split: if_splits)

lemma set_strip: "set (strip s) \<subseteq> set s"
proof -
  have "set (strip s) \<subseteq> set (dropWhile isspace s)"
    unfolding strip_def using set_dropWhileD by fastforce
  also have "\<dots> \<subseteq> set s" using set_dropWhileD by fastforce
  finally show ?thesis .
qed

lemma strip_lower: "strip (lower s) = lower (strip s)"
proof -
  have comp: "isspace \<circ> lower_char = isspace"
    by (rule ext) (simp add: isspace_lower_char)
  show ?thesis
    by (simp add: strip_def lower_def dropWhile_map rev_map comp)
qed

lemma dropWhile_trailing_head:
  assumes "ys = [] \<or> \<not> P (hd ys)"
  shows "dropWhile P (rev (dropWhile P (rev ys))) = rev (dropWhile P (rev ys))"
proof (cases ys)
  case Nil
  then show ?thesis by simp
next
  case (Cons y zs)
  with assms have ny: "\<not> P y" by simp
  have "rev (dropWhile P (rev (y # zs))) = y # rev (dropWhile P (rev zs))"
    using ny by (simp add: dropWhile_append)
  with ny Cons show ?thesis by simp
qed

lemma dropWhile_head: "dropWhile P xs = [] \<or> \<not> P (hd (dropWhile P xs))"
  by (metis hd_dropWhile)

lemma strip_strip: "strip (strip s) = strip s"
proof -
  let ?a = "dropWhile isspace s"
  let ?b = "rev (dropWhile isspace (rev ?a))"
  have 1: "dropWhile isspace ?b = ?b"
    by (rule dropWhile_trailing_head) (rule dropWhile_head)
  have 2: "dropWhile isspace (rev ?b) = rev ?b"
    by (simp add: dropWhile_idem)
  show ?thesis
    unfolding strip_def using 1 2 by simp
qed

lemma strip_lower_strip: "strip (lower (strip s)) = lower (strip s)"
  by (simp add: strip_lower strip_strip)

text \<open>A lowercased string has no capital letter, so a keyword with one is never found in it.\<close>

lemma capital_keyword_never_matches:
  assumes "c \<in> set keyword" "c \<in> set ascii_uppercase"
  shows "\<not> contains keyword (strip (lower s))"
proof
  assume "contains keyword (strip (lower s))"
  then have "set keyword \<subseteq> set (strip (lower s))" by (rule contains_set)
  with assms(1) set_strip have "c \<in> set (lower s)" by blast
  then obtain d where "c = lower_char d" by (auto simp: lower_def)
  with assms(2) lower_char_not_upper show False by simp
qed

lemma er_visit_never_matches: "\<not> contains ''ER visit'' (strip (lower s))"
  by (rule capital_keyword_never_matches [of "CHR ''E''"]) (simp_all add: ascii_uppercase_def)

section \<open>Seriousness\<close>

text \<open>
  Claim C6. For each of the seven values of \<open>severity_priority\<close> the seriousness label
  is \<open>Non-Serious\<close> exactly when the severity is \<open>None of the above\<close>. The label is a
  total function of the severity string: it reads no state and has no failing branch.
\<close>

theorem seriousness_non_serious_iff:
  "s \<in> set severity_priority \<Longrightarrow>
     (seriousness_of s = ''Non-Serious'') = (s = ''None of the above'')"
  by (auto simp: seriousness_of_def severity_priority_def)

theorem seriousness_non_serious_iff_witness:
  "''Medically significant'' \<in> set severity_priority \<and>
   seriousness_of ''Medically significant'' \<noteq> ''Non-Serious'' \<and>
   ''None of the above'' \<in> set severity_priority \<and>
   seriousness_of ''None of the above'' = ''Non-Serious''"
proof -
  have a: "''Medically significant'' \<in> set severity_priority"
    and b: "''None of the above'' \<in> set severity_priority"
    by (simp_all add: severity_priority_def)
  from seriousness_non_serious_iff [OF a] seriousness_non_serious_iff [OF b] a b
  show ?thesis by simp
qed

section \<open>Corpus tiers in the resolver\<close>

lemma check_csv_severity_stripped:
  "check_csv_severity (strip t) ms sd ca =
     (if any_keyword_in sd (lower (strip t)) then Some ''Significant disability or incapacity''
      else if any_keyword_in ca (lower (strip t)) then Some ''Congenital anomaly or birth defect''
      else if any_keyword_in ms (lower (strip t)) then Some ''Medically significant''
      else None)"
  by (simp add: check_csv_severity_def strip_lower_strip)

text \<open>
  Claim C1. A record whose lowercased term contains an entry of the significant-disability
  corpus as a substring resolves to \<open>Significant disability or incapacity\<close>, whatever
  severity the oracle proposed and whether or not the record is a diagnosis. The test is
  containment in the lowercased term, not equality.
\<close>

theorem disability_corpus_overrides:
  assumes "strip (Term e) \<noteq> []"
      and "t \<in> sd"
      and "contains t (lower (strip (Term e)))"
  shows "resolve_event ms sd ca e =
           Some (strip (Term e), ''Significant disability or incapacity'', ''Serious'')"
proof -
  from assms(2,3) have "any_keyword_in sd (lower (strip (Term e)))"
    unfolding any_keyword_in_def by blast
  then have "check_csv_severity (strip (Term e)) ms sd ca =
      Some ''Significant disability or incapacity''"
    by (simp add: check_csv_severity_stripped)
  with assms(1) show ?thesis
    by (simp add: resolve_event_def Let_def seriousness_of_def severity_priority_def)
qed

theorem disability_corpus_overrides_witness:
  "strip (Term \<lparr>Term = ''Permanent PARALYSIS of left arm'', Severity = ''None of the above'',
                Is_Diagnosis = False\<rparr>) \<noteq> [] \<and>
   ''paralysis'' \<in> {''paralysis'', ''blindness''} \<and>
   contains ''paralysis''
     (lower (strip (Term \<lparr>Term = ''Permanent PARALYSIS of left arm'',
                          Severity = ''None of the above'', Is_Diagnosis = False\<rparr>))) \<and>
   resolve_event {} {''paralysis'', ''blindness''} {}
     \<lparr>Term = ''Permanent PARALYSIS of left arm'', Severity = ''None of the above'',
      Is_Diagnosis = False\<rparr> =
     Some (''Permanent PARALYSIS of left arm'', ''Significant disability or incapacity'',
           ''Serious'')"
proof -
  let ?e = "\<lparr>Term = ''Permanent PARALYSIS of left arm'', Severity = ''None of the above'',
             Is_Diagnosis = False\<rparr>"
  have st: "strip (Term ?e) = ''Permanent PARALYSIS of left arm''"
    by (simp add: string_eval)
  have a: "strip (Term ?e) \<noteq> []" unfolding st by simp
  have b: "''paralysis'' \<in> {''paralysis'', ''blindness''}" by simp
  have c: "contains ''paralysis'' (lower (strip (Term ?e)))"
    unfolding st by (simp add: string_eval)
  from disability_corpus_overrides [OF a b c, of "{}" "{}"] a b c st
  show ?thesis by simp
qed

text \<open>
  Claim C7. A term that matches the congenital-anomaly and the medically-significant
  corpora and not the significant-disability corpus resolves to
  \<open>Congenital anomaly or birth defect\<close>: the tiers are tested in the order
  disability, congenital, medically significant, and the first match is returned.
\<close>

theorem congenital_before_medically_significant:
  assumes "strip (Term e) \<noteq> []"
      and "any_keyword_in ca (lower (strip (Term e)))"
      and "any_keyword_in ms (lower (strip (Term e)))"
      and "\<not> any_keyword_in sd (lower (strip (Term e)))"
  shows "check_csv_severity (strip (Term e)) ms sd ca =
           Some ''Congenital anomaly or birth defect'' \<and>
         resolve_event ms sd ca e =
           Some (strip (Term e), ''Congenital anomaly or birth defect'', ''Serious'')"
proof -
  from assms(2,4) have csv: "check_csv_severity (strip (Term e)) ms sd ca =
      Some ''Congenital anomaly or birth defect''"
    by (simp add: check_csv_severity_stripped)
  with assms(1) show ?thesis
    by (simp add: resolve_event_def Let_def seriousness_of_def severity_priority_def)
qed

theorem congenital_before_medically_significant_witness:
  "resolve_event {''heart defect''} {''paralysis''} {''congenital''}
     \<lparr>Term = ''Congenital heart defect'', Severity = ''Medically significant'',
      Is_Diagnosis = False\<rparr> =
     Some (''Congenital heart defect'', ''Congenital anomaly or birth defect'', ''Serious'')"
proof -
  let ?e = "\<lparr>Term = ''Congenital heart defect'', Severity = ''Medically significant'',
             Is_Diagnosis = False\<rparr>"
  have st: "strip (Term ?e) = ''Congenital heart defect''"
    by (simp add: string_eval)
  have lw: "lower ''Congenital heart defect'' = ''congenital heart defect''"
    by (simp add: string_eval)
  have a: "strip (Term ?e) \<noteq> []" unfolding st by simp
  have b: "any_keyword_in {''congenital''} (lower (strip (Term ?e)))"
    unfolding st lw by (simp add: any_keyword_in_def)
  have c: "any_keyword_in {''heart defect''} (lower (strip (Term ?e)))"
    unfolding st lw by (simp add: any_keyword_in_def)
  have d: "\<not> any_keyword_in {''paralysis''} (lower (strip (Term ?e)))"
    unfolding st lw by (simp add: any_keyword_in_def)
  from congenital_before_medically_significant [OF a b c d] st
  show ?thesis by simp
qed

text \<open>
  Claim C3. A record that is not a diagnosis, whose term matches no corpus tier and whose
  oracle severity is empty, blank or the placeholder \<open>To be determined\<close>, resolves to
  \<open>None of the above\<close> with seriousness \<open>Non-Serious\<close>. The keyword rules are not consulted
  on this path, so a term containing \<open>died\<close> resolves the same way.
\<close>

theorem non_diagnosis_defaults_to_none:
  assumes "\<not> Is_Diagnosis e"
      and "strip (Term e) \<noteq> []"
      and "check_csv_severity (strip (Term e)) ms sd ca = None"
      and "strip (Severity e) = [] \<or> Severity e = ''To be determined''"
  shows "resolve_event ms sd ca e =
           Some (strip (Term e), ''None of the above'', ''Non-Serious'')"
  using assms
  by (auto simp add: resolve_event_def Let_def seriousness_of_def severity_priority_def)

theorem non_diagnosis_defaults_to_none_witness:
  "contains ''died'' (lower ''patient died'') \<and>
   resolve_event {''hepatitis''} {''paralysis''} {''cleft palate''}
     \<lparr>Term = ''patient died'', Severity = '' '', Is_Diagnosis = False\<rparr> =
     Some (''patient died'', ''None of the above'', ''Non-Serious'')"
proof -
  let ?e = "\<lparr>Term = ''patient died'', Severity = '' '', Is_Diagnosis = False\<rparr>"
  have st: "strip (Term ?e) = ''patient died''" by (simp add: string_eval)
  have lw: "lower ''patient died'' = ''patient died''" by (simp add: string_eval)
  have a: "\<not> Is_Diagnosis ?e" by simp
  have b: "strip (Term ?e) \<noteq> []" unfolding st by simp
  have c: "check_csv_severity (strip (Term ?e)) {''hepatitis''} {''paralysis''} {''cleft palate''}
             = None"
    by (simp add: check_csv_severity_def any_keyword_in_def string_eval)
  have d: "strip (Severity ?e) = [] \<or> Severity ?e = ''To be determined''"
    by (simp add: string_eval)
  have k: "contains ''died'' (lower ''patient died'')" unfolding lw by simp
  from non_diagnosis_defaults_to_none [OF a b c d] st k
  show ?thesis by simp
qed

section \<open>Keyword escalation for diagnosed conditions\<close>

text \<open>
  Claim C2. The hospitalization rule lists the keyword \<open>ER visit\<close> with capital letters and
  looks for it in the lowercased term, where it cannot occur
  (\<open>er_visit_never_matches\<close>). A diagnosed condition \<open>ER visit\<close> with no other keyword
  and no corpus match therefore falls through every rule: the request below is answered
  with severity \<open>None of the above\<close> and not with the hospitalization severity.
\<close>

theorem er_visit_diagnosis_not_hospitalization:
  "analyze_text
     \<lparr>call_diagnostic_ollama = (\<lambda>text. ''ER visit''),
      call_ollama = (\<lambda>text. Inl (OtherException [])),
      json_loads = (\<lambda>t. None), py_eval = (\<lambda>t. None)\<rparr>
     {} {} {} (JsonBody (Some ''Patient had an ER visit after the first dose''))
   = Ok200 [''Adverse_Event_Terms'' \<mapsto> ''ER visit'',
            ''Side_Effect_Severity'' \<mapsto> ''None of the above'',
            ''Side_Effect_Seriousness'' \<mapsto> ''Non-Serious'']"
proof -
  let ?E = "\<lparr>call_diagnostic_ollama = (\<lambda>text. ''ER visit''),
      call_ollama = (\<lambda>text. Inl (OtherException [])),
      json_loads = (\<lambda>t. None), py_eval = (\<lambda>t. None)\<rparr>"
  let ?e = "\<lparr>Term = ''ER visit'', Severity = ''To be determined'', Is_Diagnosis = True\<rparr>"
  have nonblank: "strip ''Patient had an ER visit after the first dose'' \<noteq> []"
    by (simp add: strip_def isspace_def)
  have st: "strip ''ER visit'' = ''ER visit''"
    by (simp add: strip_def isspace_def)
  have lw: "strip (lower ''ER visit'') = ''er visit''"
    by (simp add: string_eval)
  have det: "determine_adr_severity_for_diagnosed ''ER visit'' {} {} {} = ''None of the above''"
    by (simp add: determine_adr_severity_for_diagnosed_def severity_rules_def
        any_keyword_in_def lw)
  have csv: "check_csv_severity ''ER visit'' {} {} {} = None"
    by (simp add: check_csv_severity_def any_keyword_in_def)
  have ser: "seriousness_of ''None of the above'' = ''Non-Serious''"
    by (simp add: seriousness_of_def severity_priority_def)
  have res: "resolve_event {} {} {} ?e =
      Some (''ER visit'', ''None of the above'', ''Non-Serious'')"
    by (simp add: resolve_event_def Let_def st det csv ser)
  have ext: "extract_medical_information ?E t = Inr [?e]" for t
    by (simp add: extract_medical_information_def diagnosis_events_def st)
  show ?thesis
    using nonblank by (simp add: analyze_text_def Let_def ext assemble_def res)
qed

section \<open>Corpus loading\<close>

lemma load_terms_Column:
  "load_terms (Column cells) = Inr ((\<lambda>term. strip (lower term)) ` {t. Some t \<in> set cells})"
proof -
  have "set (List.map_filter id cells) = {t. Some t \<in> set cells}"
    by (induction cells) (auto simp: List.map_filter_simps split: option.splits)
  then show ?thesis by (simp add: load_terms_def)
qed

text \<open>
  Claim C9, as stated, at the case where all three sources are missing: loading does not
  fail, it returns three empty term sets.
\<close>

theorem all_sources_missing_loads_empty:
  "load_ae_terms_from_csv FileNotFound FileNotFound FileNotFound = Inr ({}, {}, {})"
  by (simp add: load_ae_terms_from_csv_def load_terms_def)

text \<open>
  Claim C9, amended. A missing source file gives the empty term set for its tier and
  loading goes on, also when all three files are missing. Loading fails, and with it the
  start of the server, exactly when at least one source raises an error other than
  file-not-found while it is read.
\<close>

theorem corpus_load_fails_iff_read_failure:
  "((\<exists>e. load_ae_terms_from_csv a b c = Inl e) \<longleftrightarrow>
      (\<exists>m. a = ReadFailure m \<or> b = ReadFailure m \<or> c = ReadFailure m)) \<and>
   (\<forall>ms sd ca. load_ae_terms_from_csv a b c = Inr (ms, sd, ca) \<longrightarrow>
      (a = FileNotFound \<longrightarrow> ms = {}) \<and>
      (b = FileNotFound \<longrightarrow> sd = {}) \<and>
      (c = FileNotFound \<longrightarrow> ca = {}))"
  by (auto simp: load_ae_terms_from_csv_def load_terms_def split: csv_file.splits sum.splits)

theorem corpus_load_fails_iff_read_failure_witness:
  "load_ae_terms_from_csv FileNotFound (Column [Some ''Paralysis '', None]) FileNotFound =
     Inr ({}, {''paralysis''}, {}) \<and>
   (\<exists>e. load_ae_terms_from_csv FileNotFound (Column [Some ''Paralysis '', None])
           (ReadFailure ''Permission denied'') = Inl e)"
proof -
  have ld: "load_ae_terms_from_csv FileNotFound (Column [Some ''Paralysis '', None]) FileNotFound =
     Inr (The_ms, The_sd, The_ca) \<Longrightarrow> The_ms = {} \<and> The_ca = {}" for The_ms The_sd The_ca
    using corpus_load_fails_iff_read_failure
      [of FileNotFound "Column [Some ''Paralysis '', None]" FileNotFound]
    by blast
  have sd: "load_terms (Column [Some ''Paralysis '', None]) = Inr {''paralysis''}"
    by (simp add: load_terms_def List.map_filter_simps string_eval)
  have fnf: "load_terms FileNotFound = Inr {}"
    by (simp add: load_terms_def)
  have ex: "\<exists>ms ca. load_ae_terms_from_csv FileNotFound (Column [Some ''Paralysis '', None])
      FileNotFound = Inr (ms, {''paralysis''}, ca)"
    by (simp add: load_ae_terms_from_csv_def sd fnf)
  then obtain ms ca where eq: "load_ae_terms_from_csv FileNotFound
      (Column [Some ''Paralysis '', None]) FileNotFound = Inr (ms, {''paralysis''}, ca)"
    by blast
  from ld [OF eq] eq have 1: "load_ae_terms_from_csv FileNotFound
      (Column [Some ''Paralysis '', None]) FileNotFound = Inr ({}, {''paralysis''}, {})"
    by simp
  have 2: "\<exists>e. load_ae_terms_from_csv FileNotFound (Column [Some ''Paralysis '', None])
           (ReadFailure ''Permission denied'') = Inl e"
    using corpus_load_fails_iff_read_failure
      [of FileNotFound "Column [Some ''Paralysis '', None]" "ReadFailure ''Permission denied''"]
    by blast
  from 1 2 show ?thesis by blast
qed

section \<open>Unparseable oracle replies\<close>




section \<open>Field names and the response loop\<close>

lemma digit_char_inj: "a < 10 \<Longrightarrow> b < 10 \<Longrightarrow> digit_char a = digit_char b \<Longrightarrow> a = b"
proof -
  assume a: "a < 10" and b: "b < 10" and eq: "digit_char a = digit_char b"
  have d: "distinct ''0123456789''" by simp
  have "length ''0123456789'' = 10" by simp
  with a b eq d show "a = b"
    unfolding digit_char_def by (metis nth_eq_iff_index_eq)
qed

lemma str_nonempty: "str n \<noteq> []"
  by (subst str.simps) simp

lemma str_small: "n < 10 \<Longrightarrow> str n = [digit_char n]"
  by (subst str.simps) simp

lemma str_big: "\<not> n < 10 \<Longrightarrow> str n = str (n div 10) @ [digit_char (n mod 10)]"
  by (subst str.simps) simp

lemma str_inj: "str n = str m \<Longrightarrow> n = m"
proof (induction n arbitrary: m rule: str.induct)
  case (1 n)
  show ?case
  proof (cases "n < 10")
    case True
    note n = this
    show ?thesis
    proof (cases "m < 10")
      case True
      with n "1.prems" show ?thesis by (simp add: str_small digit_char_inj)
    next
      case False
      with n "1.prems" have "[digit_char n] = str (m div 10) @ [digit_char (m mod 10)]"
        by (simp add: str_small str_big)
      then have "str (m div 10) = []" by simp
      then show ?thesis by (simp add: str_nonempty)
    qed
  next
    case False
    note n = this
    show ?thesis
    proof (cases "m < 10")
      case True
      with n "1.prems" have "str (n div 10) @ [digit_char (n mod 10)] = [digit_char m]"
        by (simp add: str_small str_big)
      then have "str (n div 10) = []" by simp
      then show ?thesis by (simp add: str_nonempty)
    next
      case False
      with n "1.prems" have eq: "str (n div 10) = str (m div 10)"
        and d: "digit_char (n mod 10) = digit_char (m mod 10)"
        by (simp_all add: str_big)
      from "1.IH" [OF n eq] have q: "n div 10 = m div 10" .
      from d have r: "n mod 10 = m mod 10" by (simp add: digit_char_inj)
      from q r show ?thesis by (metis div_mult_mod_eq)
    qed
  qed
qed

text \<open>Distinct indices and distinct field families give distinct field names.\<close>

lemma bases_append_inj:
  assumes "b \<in> bases" "b' \<in> bases" "b @ x = b' @ y"
  shows "b = b' \<and> x = y"
proof -
  from assms(1) consider "b = ''Adverse_Event_Terms''" | "b = ''Side_Effect_Severity''"
    | "b = ''Side_Effect_Seriousness''"
    by (auto simp: bases_def)
  then show ?thesis
  proof cases
    case 1
    from assms(2) consider "b' = ''Adverse_Event_Terms''" | "b' = ''Side_Effect_Severity''"
      | "b' = ''Side_Effect_Seriousness''"
      by (auto simp: bases_def)
    then show ?thesis using 1 assms(3) by cases simp_all
  next
    case 2
    from assms(2) consider "b' = ''Adverse_Event_Terms''" | "b' = ''Side_Effect_Severity''"
      | "b' = ''Side_Effect_Seriousness''"
      by (auto simp: bases_def)
    then show ?thesis using 2 assms(3) by cases simp_all
  next
    case 3
    from assms(2) consider "b' = ''Adverse_Event_Terms''" | "b' = ''Side_Effect_Severity''"
      | "b' = ''Side_Effect_Seriousness''"
      by (auto simp: bases_def)
    then show ?thesis using 3 assms(3) by cases simp_all
  qed
qed

lemma field_name_inj:
  assumes "b \<in> bases" "b' \<in> bases"
  shows "field_name b i = field_name b' j \<longleftrightarrow> b = b' \<and> i = j"
proof
  assume eq: "field_name b i = field_name b' j"
  let ?x = "if i = 1 then [] else str i"
  let ?y = "if j = 1 then [] else str j"
  from eq have "b @ ?x = b' @ ?y" by (simp add: field_name_def split: if_splits)
  from bases_append_inj [OF assms this] have b: "b = b'" and xy: "?x = ?y" by simp_all
  from xy have "i = j"
    using str_nonempty [of i] str_nonempty [of j] str_inj [of i j]
    by (simp split: if_splits)
  with b show "b = b' \<and> i = j" by simp
next
  assume "b = b' \<and> i = j"
  then show "field_name b i = field_name b' j" by simp
qed

lemma process_events_Cons:
  "process_events ms sd ca i (event # events) rd =
     process_events ms sd ca (Suc i) events
       (case resolve_event ms sd ca event of None \<Rightarrow> rd | Some r \<Rightarrow> write_fields rd i r)"
  by (simp add: write_fields_def field_name_def split: option.splits)

lemma write_fields_other:
  "(\<forall>b\<in>bases. k \<noteq> field_name b i) \<Longrightarrow> write_fields rd i r k = rd k"
  by (cases r) (simp add: write_fields_def bases_def)

lemma fields_at_write_same: "fields_at (write_fields rd i (t, s, z)) i = (Some t, Some s, Some z)"
proof -
  have "field_name ''Adverse_Event_Terms'' i \<noteq> field_name ''Side_Effect_Severity'' i"
    "field_name ''Adverse_Event_Terms'' i \<noteq> field_name ''Side_Effect_Seriousness'' i"
    "field_name ''Side_Effect_Severity'' i \<noteq> field_name ''Side_Effect_Seriousness'' i"
    by (simp_all add: field_name_inj bases_def)
  then show ?thesis by (simp add: fields_at_def write_fields_def)
qed

lemma fields_at_write_other: "i \<noteq> j \<Longrightarrow> fields_at (write_fields rd i r) j = fields_at rd j"
  by (simp add: fields_at_def write_fields_other field_name_inj bases_def)

text \<open>The loop leaves alone every key that is not a field name of one of its indices.\<close>

lemma process_events_other:
  "(\<forall>j<length events. \<forall>b\<in>bases. k \<noteq> field_name b (i + j)) \<Longrightarrow>
     process_events ms sd ca i events rd k = rd k"
proof (induction events arbitrary: i rd)
  case Nil
  then show ?case by simp
next
  case (Cons event events)
  from Cons.prems have here: "\<forall>b\<in>bases. k \<noteq> field_name b i" by force
  from Cons.prems have later: "\<forall>j<length events. \<forall>b\<in>bases. k \<noteq> field_name b (Suc i + j)"
    by force
  show ?case
    unfolding process_events_Cons
    by (simp add: Cons.IH [OF later] write_fields_other [OF here] split: option.splits)
qed

lemma fields_at_process_events_before:
  "j < i \<Longrightarrow> fields_at (process_events ms sd ca i events rd) j = fields_at rd j"
  by (simp add: fields_at_def process_events_other field_name_inj bases_def)

text \<open>
  The fields of index \<open>i + j\<close> after the loop are those of the record at position \<open>j\<close>,
  or untouched when that record is skipped.
\<close>

lemma fields_at_process_events:
  "j < length events \<Longrightarrow>
     fields_at (process_events ms sd ca i events rd) (i + j) =
       (case resolve_event ms sd ca (events ! j) of
          None \<Rightarrow> fields_at rd (i + j)
        | Some (t, s, z) \<Rightarrow> (Some t, Some s, Some z))"
proof (induction events arbitrary: i j rd)
  case Nil
  then show ?case by simp
next
  case (Cons event events)
  show ?case
  proof (cases j)
    case 0
    then show ?thesis
      unfolding process_events_Cons
      by (auto simp add: fields_at_process_events_before fields_at_write_same
          split: option.splits)
  next
    case (Suc j')
    with Cons.prems have "j' < length events" by simp
    from Cons.IH [OF this, of "Suc i"] Suc show ?thesis
      unfolding process_events_Cons
      by (auto simp add: fields_at_write_other split: option.splits)
  qed
qed

lemma fields_at_assemble:
  assumes "k < length result" "k < 5"
  shows "fields_at (assemble ms sd ca result) (Suc k) =
       (case resolve_event ms sd ca (result ! k) of
          None \<Rightarrow> (None, None, None)
        | Some (t, s, z) \<Rightarrow> (Some t, Some s, Some z))"
proof -
  from assms have len: "k < length (take 5 result)" by simp
  have empty: "fields_at Map.empty (Suc k) = (None, None, None)"
    by (simp add: fields_at_def)
  from assms have nth: "take 5 result ! k = result ! k" by simp
  show ?thesis
    using fields_at_process_events [OF len, of ms sd ca 1 Map.empty]
    by (simp add: assemble_def empty nth split: option.splits)
qed



section \<open>The extraction loop\<close>

lemma dedup_loop_Cons:
  "dedup_loop (ev # rest) events seen_terms =
     (if Term (event_of ev) = [] \<or> term_key (event_of ev) \<in> seen_terms
      then dedup_loop rest events seen_terms
      else dedup_loop rest (events @ [event_of ev]) (insert (term_key (event_of ev)) seen_terms))"
  by (simp add: event_of_def term_key_def Let_def)

lemma dedup_loop_length:
  "length (dedup_loop raw events seen) \<le> length events + length raw"
proof (induction raw arbitrary: events seen)
  case Nil
  then show ?case by simp
next
  case (Cons ev rest)
  show ?case
    unfolding dedup_loop_Cons
    using Cons.IH [of events seen]
      Cons.IH [of "events @ [event_of ev]" "insert (term_key (event_of ev)) seen"]
    by (simp split: if_splits)
qed

lemma dedup_loop_subseq:
  "\<exists>ys. dedup_loop raw events seen = events @ ys \<and> subseq ys (map event_of raw)"
proof (induction raw arbitrary: events seen)
  case Nil
  then show ?case by simp
next
  case (Cons ev rest)
  show ?case
  proof (cases "Term (event_of ev) = [] \<or> term_key (event_of ev) \<in> seen")
    case True
    from Cons.IH [of events seen] obtain ys where
      "dedup_loop rest events seen = events @ ys" "subseq ys (map event_of rest)" by blast
    with True show ?thesis
      unfolding dedup_loop_Cons by (auto intro: subseq_Cons')
  next
    case False
    from Cons.IH [of "events @ [event_of ev]" "insert (term_key (event_of ev)) seen"]
    obtain ys where
      "dedup_loop rest (events @ [event_of ev]) (insert (term_key (event_of ev)) seen)
         = (events @ [event_of ev]) @ ys" "subseq ys (map event_of rest)" by blast
    with False show ?thesis
      unfolding dedup_loop_Cons by (auto intro!: exI [of _ "event_of ev # ys"])
  qed
qed

lemma dedup_loop_distinct:
  "distinct (map term_key events) \<Longrightarrow> term_key ` set events \<subseteq> seen \<Longrightarrow>
     distinct (map term_key (dedup_loop raw events seen))"
proof (induction raw arbitrary: events seen)
  case Nil
  then show ?case by simp
next
  case (Cons ev rest)
  show ?case
  proof (cases "Term (event_of ev) = [] \<or> term_key (event_of ev) \<in> seen")
    case True
    with Cons show ?thesis unfolding dedup_loop_Cons by simp
  next
    case False
    have "distinct (map term_key (events @ [event_of ev]))"
      using Cons.prems False by auto
    moreover have "term_key ` set (events @ [event_of ev])
        \<subseteq> insert (term_key (event_of ev)) seen"
      using Cons.prems by auto
    ultimately show ?thesis
      using False Cons.IH unfolding dedup_loop_Cons by simp
  qed
qed

text \<open>Every term the loop keeps is non-empty and already trimmed.\<close>

lemma dedup_loop_terms:
  "\<forall>e\<in>set events. Term e \<noteq> [] \<and> strip (Term e) = Term e \<Longrightarrow>
   \<forall>e\<in>set (dedup_loop raw events seen). Term e \<noteq> [] \<and> strip (Term e) = Term e"
proof (induction raw arbitrary: events seen)
  case Nil
  then show ?case by simp
next
  case (Cons ev rest)
  have st: "strip (Term (event_of ev)) = Term (event_of ev)"
    by (simp add: event_of_def strip_strip)
  show ?case
  proof (cases "Term (event_of ev) = [] \<or> term_key (event_of ev) \<in> seen")
    case True
    then have eq: "dedup_loop (ev # rest) events seen = dedup_loop rest events seen"
      unfolding dedup_loop_Cons by simp
    show ?thesis unfolding eq by (rule Cons.IH [OF Cons.prems])
  next
    case False
    then have eq: "dedup_loop (ev # rest) events seen =
        dedup_loop rest (events @ [event_of ev]) (insert (term_key (event_of ev)) seen)"
      unfolding dedup_loop_Cons by simp
    from False st Cons.prems
    have "\<forall>e\<in>set (events @ [event_of ev]). Term e \<noteq> [] \<and> strip (Term e) = Term e"
      by simp
    then show ?thesis unfolding eq by (rule Cons.IH)
  qed
qed

text \<open>
  With \<open>seen_terms\<close> holding the keys of the records kept so far, a record the loop adds
  is the first entry of the remaining input that has its key.
\<close>

lemma dedup_loop_first_seen:
  "seen = term_key ` set events \<Longrightarrow> e \<in> set (dedup_loop raw events seen) \<Longrightarrow>
     e \<in> set events \<or>
     (term_key e \<notin> seen \<and>
      find (\<lambda>x. Term x \<noteq> [] \<and> term_key x = term_key e) (map event_of raw) = Some e)"
proof (induction raw arbitrary: events seen)
  case Nil
  then show ?case by simp
next
  case (Cons ev rest)
  show ?case
  proof (cases "Term (event_of ev) = [] \<or> term_key (event_of ev) \<in> seen")
    case True
    with Cons.prems have "e \<in> set (dedup_loop rest events seen)"
      unfolding dedup_loop_Cons by simp
    from Cons.IH [OF Cons.prems(1) this] True show ?thesis by auto
  next
    case False
    let ?events = "events @ [event_of ev]"
    let ?seen = "insert (term_key (event_of ev)) seen"
    from False Cons.prems have mem: "e \<in> set (dedup_loop rest ?events ?seen)"
      unfolding dedup_loop_Cons by simp
    have inv: "?seen = term_key ` set ?events" using Cons.prems(1) by auto
    from Cons.IH [OF inv mem] False Cons.prems(1) show ?thesis by auto
  qed
qed

lemma subseq_take: "subseq (take n xs) xs"
proof -
  have "prefix (take n xs) xs" by (rule take_is_prefix)
  then show ?thesis by (rule prefix_imp_subseq)
qed

text \<open>
  The loop computes the first-seen records of its input: what it appends to \<open>events\<close> is
  \<open>keep_first_seen\<close> of the entries with a non-empty term and a key not yet seen.
\<close>

lemma dedup_loop_keep_first_seen:
  "dedup_loop raw events seen =
     events @ keep_first_seen
       (filter (\<lambda>x. Term x \<noteq> [] \<and> term_key x \<notin> seen) (map event_of raw))"
proof (induction raw arbitrary: events seen)
  case Nil
  then show ?case by simp
next
  case (Cons ev rest)
  let ?e = "event_of ev"
  show ?case
  proof (cases "Term ?e = [] \<or> term_key ?e \<in> seen")
    case True
    then have "dedup_loop (ev # rest) events seen = dedup_loop rest events seen"
      unfolding dedup_loop_Cons by simp
    with True Cons.IH [of events seen] show ?thesis by auto
  next
    case False
    then have eq: "dedup_loop (ev # rest) events seen =
        dedup_loop rest (events @ [?e]) (insert (term_key ?e) seen)"
      unfolding dedup_loop_Cons by simp
    have flt: "filter (\<lambda>x. term_key x \<noteq> term_key ?e)
          (filter (\<lambda>x. Term x \<noteq> [] \<and> term_key x \<notin> seen) (map event_of rest)) =
        filter (\<lambda>x. Term x \<noteq> [] \<and> term_key x \<notin> insert (term_key ?e) seen)
          (map event_of rest)"
      by (simp add: conj_commute conj_left_commute)
    have hd: "filter (\<lambda>x. Term x \<noteq> [] \<and> term_key x \<notin> seen) (map event_of (ev # rest)) =
        ?e # filter (\<lambda>x. Term x \<noteq> [] \<and> term_key x \<notin> seen) (map event_of rest)"
      using False by simp
    have kfs: "keep_first_seen
          (?e # filter (\<lambda>x. Term x \<noteq> [] \<and> term_key x \<notin> seen) (map event_of rest)) =
        ?e # keep_first_seen
          (filter (\<lambda>x. Term x \<noteq> [] \<and> term_key x \<notin> insert (term_key ?e) seen)
             (map event_of rest))"
      by (simp only: keep_first_seen.simps flt)
    have "dedup_loop (ev # rest) events seen =
        (events @ [?e]) @ keep_first_seen
          (filter (\<lambda>x. Term x \<noteq> [] \<and> term_key x \<notin> insert (term_key ?e) seen)
             (map event_of rest))"
      unfolding eq by (rule Cons.IH)
    then show ?thesis unfolding hd kfs by simp
  qed
qed

lemma keep_first_seen_keys: "term_key ` set (keep_first_seen xs) = term_key ` set xs"
proof (induction xs rule: keep_first_seen.induct)
  case 1
  then show ?case by simp
next
  case (2 e es)
  then show ?case by auto
qed

lemma keep_first_seen_length: "length (keep_first_seen xs) = card (term_key ` set xs)"
proof (induction xs rule: keep_first_seen.induct)
  case 1
  then show ?case by simp
next
  case (2 e es)
  have "term_key ` set (filter (\<lambda>x. term_key x \<noteq> term_key e) es) =
      term_key ` set es - {term_key e}" by auto
  with 2 have "length (keep_first_seen (e # es)) = Suc (card (term_key ` set es - {term_key e}))"
    by simp
  also have "\<dots> = card (insert (term_key e) (term_key ` set es))"
    by (simp add: card.insert_remove)
  finally show ?case by simp
qed

text \<open>
  Claim C4. For every list of oracle entries, the list the extraction keeps is exactly what
  the specification's deduplication gives on the entries with a non-empty term: the
  first-seen record of each comparison key (the lowercased, trimmed term), in input order,
  truncated to 5. Hence its length is the number of distinct keys capped at 5, so at most 5
  and at most the input size; no two of its terms are equal after lowercasing; it is a
  subsequence of the input entries; each record is the first input entry that has its key,
  so the first-seen casing is the one kept; and every key of the input is kept unless the
  cap of 5 is reached.
\<close>

theorem deduplicate_bounded_distinct_first_seen:
  "deduplicate raw = spec_deduplicate (filter (\<lambda>e. Term e \<noteq> []) (map event_of raw)) \<and>
   length (deduplicate raw) =
     min 5 (card (term_key ` {e \<in> set (map event_of raw). Term e \<noteq> []})) \<and>
   length (deduplicate raw) \<le> 5 \<and>
   length (deduplicate raw) \<le> length raw \<and>
   distinct (map term_key (deduplicate raw)) \<and>
   distinct (map (\<lambda>e. lower (Term e)) (deduplicate raw)) \<and>
   subseq (deduplicate raw) (map event_of raw) \<and>
   (\<forall>e\<in>set (deduplicate raw).
      find (\<lambda>x. Term x \<noteq> [] \<and> term_key x = term_key e) (map event_of raw) = Some e) \<and>
   (\<forall>r\<in>set raw. Term (event_of r) \<noteq> [] \<longrightarrow>
      term_key (event_of r) \<in> term_key ` set (deduplicate raw) \<or>
      length (deduplicate raw) = 5)"
proof -
  let ?out = "dedup_loop raw [] {}"
  let ?entries = "filter (\<lambda>e. Term e \<noteq> []) (map event_of raw)"
  have out: "?out = keep_first_seen ?entries"
    by (simp add: dedup_loop_keep_first_seen)
  then have 0: "deduplicate raw = spec_deduplicate ?entries"
    by (simp add: deduplicate_def spec_deduplicate_def)
  have len: "length ?out = card (term_key ` {e \<in> set (map event_of raw). Term e \<noteq> []})"
    unfolding out keep_first_seen_length by simp
  then have 00: "length (deduplicate raw) =
      min 5 (card (term_key ` {e \<in> set (map event_of raw). Term e \<noteq> []}))"
    by (simp add: deduplicate_def min.commute)
  have 1: "length (deduplicate raw) \<le> 5" by (simp add: deduplicate_def)
  have 2: "length (deduplicate raw) \<le> length raw"
    using dedup_loop_length [of raw "[]" "{}"] by (simp add: deduplicate_def)
  have d: "distinct (map term_key ?out)" by (rule dedup_loop_distinct) simp_all
  then have 3: "distinct (map term_key (deduplicate raw))"
    by (simp add: deduplicate_def take_map [symmetric] distinct_take)
  have terms: "\<forall>e\<in>set ?out. Term e \<noteq> [] \<and> strip (Term e) = Term e"
    by (rule dedup_loop_terms) simp
  have "map term_key ?out = map (\<lambda>e. lower (Term e)) ?out"
  proof (rule map_cong [OF refl])
    fix e assume "e \<in> set ?out"
    with terms have st: "strip (Term e) = Term e" by blast
    then have "term_key e = strip (lower (strip (Term e)))" by (simp add: term_key_def)
    also have "\<dots> = lower (strip (Term e))" by (rule strip_lower_strip)
    finally show "term_key e = lower (Term e)" using st by simp
  qed
  with d have "distinct (map (\<lambda>e. lower (Term e)) ?out)" by simp
  then have 4: "distinct (map (\<lambda>e. lower (Term e)) (deduplicate raw))"
    by (simp add: deduplicate_def take_map [symmetric] distinct_take)
  from dedup_loop_subseq [of raw "[]" "{}"] have "subseq ?out (map event_of raw)" by simp
  with subseq_take [of 5 ?out] have 5: "subseq (deduplicate raw) (map event_of raw)"
    unfolding deduplicate_def by (rule subseq_order.order_trans)
  have 6: "\<forall>e\<in>set (deduplicate raw).
      find (\<lambda>x. Term x \<noteq> [] \<and> term_key x = term_key e) (map event_of raw) = Some e"
  proof
    fix e assume "e \<in> set (deduplicate raw)"
    then have "e \<in> set ?out" unfolding deduplicate_def by (rule in_set_takeD)
    from dedup_loop_first_seen [OF _ this] show
      "find (\<lambda>x. Term x \<noteq> [] \<and> term_key x = term_key e) (map event_of raw) = Some e"
      by simp
  qed
  have 7: "\<forall>r\<in>set raw. Term (event_of r) \<noteq> [] \<longrightarrow>
      term_key (event_of r) \<in> term_key ` set (deduplicate raw) \<or>
      length (deduplicate raw) = 5"
  proof (intro ballI impI)
    fix r assume r: "r \<in> set raw" and ne: "Term (event_of r) \<noteq> []"
    then have "term_key (event_of r) \<in> term_key ` set ?entries" by auto
    then have key: "term_key (event_of r) \<in> term_key ` set ?out"
      unfolding out keep_first_seen_keys .
    show "term_key (event_of r) \<in> term_key ` set (deduplicate raw) \<or>
        length (deduplicate raw) = 5"
    proof (cases "length ?out \<le> 5")
      case True
      then have "deduplicate raw = ?out" by (simp add: deduplicate_def)
      with key show ?thesis by simp
    next
      case False
      then have "length (deduplicate raw) = 5" by (simp add: deduplicate_def)
      then show ?thesis by simp
    qed
  qed
  from 0 00 1 2 3 4 5 6 7 show ?thesis by blast
qed

theorem deduplicate_bounded_distinct_first_seen_witness:
  "deduplicate
     [\<lparr>raw_Term = Some ''Nausea'', raw_Severity = Some ''None of the above''\<rparr>,
      \<lparr>raw_Term = Some '' nausea '', raw_Severity = Some ''Life threatening''\<rparr>,
      \<lparr>raw_Term = None, raw_Severity = None\<rparr>,
      \<lparr>raw_Term = Some ''Headache'', raw_Severity = None\<rparr>,
      \<lparr>raw_Term = Some ''Rash'', raw_Severity = None\<rparr>,
      \<lparr>raw_Term = Some ''Fever'', raw_Severity = None\<rparr>,
      \<lparr>raw_Term = Some ''Cough'', raw_Severity = None\<rparr>,
      \<lparr>raw_Term = Some ''Vomiting'', raw_Severity = None\<rparr>] =
     [\<lparr>Term = ''Nausea'', Severity = ''None of the above'', Is_Diagnosis = False\<rparr>,
      \<lparr>Term = ''Headache'', Severity = ''None of the above'', Is_Diagnosis = False\<rparr>,
      \<lparr>Term = ''Rash'', Severity = ''None of the above'', Is_Diagnosis = False\<rparr>,
      \<lparr>Term = ''Fever'', Severity = ''None of the above'', Is_Diagnosis = False\<rparr>,
      \<lparr>Term = ''Cough'', Severity = ''None of the above'', Is_Diagnosis = False\<rparr>] \<and>
   find (\<lambda>x. Term x \<noteq> [] \<and>
            term_key x = term_key \<lparr>Term = ''Nausea'', Severity = ''None of the above'',
                                   Is_Diagnosis = False\<rparr>)
     (map event_of
        [\<lparr>raw_Term = Some ''Nausea'', raw_Severity = Some ''None of the above''\<rparr>,
         \<lparr>raw_Term = Some '' nausea '', raw_Severity = Some ''Life threatening''\<rparr>,
         \<lparr>raw_Term = None, raw_Severity = None\<rparr>,
         \<lparr>raw_Term = Some ''Headache'', raw_Severity = None\<rparr>,
         \<lparr>raw_Term = Some ''Rash'', raw_Severity = None\<rparr>,
         \<lparr>raw_Term = Some ''Fever'', raw_Severity = None\<rparr>,
         \<lparr>raw_Term = Some ''Cough'', raw_Severity = None\<rparr>,
         \<lparr>raw_Term = Some ''Vomiting'', raw_Severity = None\<rparr>]) =
     Some \<lparr>Term = ''Nausea'', Severity = ''None of the above'', Is_Diagnosis = False\<rparr> \<and>
   (term_key (event_of \<lparr>raw_Term = Some ''Vomiting'', raw_Severity = None\<rparr>) \<in>
      term_key ` set (deduplicate
        [\<lparr>raw_Term = Some ''Nausea'', raw_Severity = Some ''None of the above''\<rparr>,
         \<lparr>raw_Term = Some '' nausea '', raw_Severity = Some ''Life threatening''\<rparr>,
         \<lparr>raw_Term = None, raw_Severity = None\<rparr>,
         \<lparr>raw_Term = Some ''Headache'', raw_Severity = None\<rparr>,
         \<lparr>raw_Term = Some ''Rash'', raw_Severity = None\<rparr>,
         \<lparr>raw_Term = Some ''Fever'', raw_Severity = None\<rparr>,
         \<lparr>raw_Term = Some ''Cough'', raw_Severity = None\<rparr>,
         \<lparr>raw_Term = Some ''Vomiting'', raw_Severity = None\<rparr>]) \<or>
    length (deduplicate
        [\<lparr>raw_Term = Some ''Nausea'', raw_Severity = Some ''None of the above''\<rparr>,
         \<lparr>raw_Term = Some '' nausea '', raw_Severity = Some ''Life threatening''\<rparr>,
         \<lparr>raw_Term = None, raw_Severity = None\<rparr>,
         \<lparr>raw_Term = Some ''Headache'', raw_Severity = None\<rparr>,
         \<lparr>raw_Term = Some ''Rash'', raw_Severity = None\<rparr>,
         \<lparr>raw_Term = Some ''Fever'', raw_Severity = None\<rparr>,
         \<lparr>raw_Term = Some ''Cough'', raw_Severity = None\<rparr>,
         \<lparr>raw_Term = Some ''Vomiting'', raw_Severity = None\<rparr>]) = 5)"
proof -
  let ?raw = "[\<lparr>raw_Term = Some ''Nausea'', raw_Severity = Some ''None of the above''\<rparr>,
      \<lparr>raw_Term = Some '' nausea '', raw_Severity = Some ''Life threatening''\<rparr>,
      \<lparr>raw_Term = None, raw_Severity = None\<rparr>,
      \<lparr>raw_Term = Some ''Headache'', raw_Severity = None\<rparr>,
      \<lparr>raw_Term = Some ''Rash'', raw_Severity = None\<rparr>,
      \<lparr>raw_Term = Some ''Fever'', raw_Severity = None\<rparr>,
      \<lparr>raw_Term = Some ''Cough'', raw_Severity = None\<rparr>,
      \<lparr>raw_Term = Some ''Vomiting'', raw_Severity = None\<rparr>]"
  let ?a = "\<lparr>Term = ''Nausea'', Severity = ''None of the above'', Is_Diagnosis = False\<rparr>"
  let ?v = "\<lparr>raw_Term = Some ''Vomiting'', raw_Severity = None\<rparr>"
  have out: "deduplicate ?raw =
     [?a,
      \<lparr>Term = ''Headache'', Severity = ''None of the above'', Is_Diagnosis = False\<rparr>,
      \<lparr>Term = ''Rash'', Severity = ''None of the above'', Is_Diagnosis = False\<rparr>,
      \<lparr>Term = ''Fever'', Severity = ''None of the above'', Is_Diagnosis = False\<rparr>,
      \<lparr>Term = ''Cough'', Severity = ''None of the above'', Is_Diagnosis = False\<rparr>]"
    by (simp add: deduplicate_def Let_def string_eval)
  then have mem: "?a \<in> set (deduplicate ?raw)" by simp
  have v: "?v \<in> set ?raw" by simp
  have vt: "Term (event_of ?v) \<noteq> []" by (simp add: event_of_def strip_def isspace_def)
  note props = deduplicate_bounded_distinct_first_seen [of ?raw]
  from props mem
  have 1: "find (\<lambda>x. Term x \<noteq> [] \<and> term_key x = term_key ?a) (map event_of ?raw) = Some ?a"
    by blast
  from props v vt
  have 2: "term_key (event_of ?v) \<in> term_key ` set (deduplicate ?raw) \<or>
      length (deduplicate ?raw) = 5"
    by blast
  from out 1 2 show ?thesis by blast
qed

section \<open>The response fields\<close>






text \<open>
  Claim C10, as stated, at the severity \<open>To be determined\<close>: this is a non-empty string
  outside the seven values of \<open>severity_priority\<close>, the oracle's reply below supplies it
  for a record that is not a diagnosis and matches no corpus tier, and the response does
  not carry it: the severity written is \<open>None of the above\<close>.
\<close>

theorem placeholder_severity_not_emitted_verbatim:
  "''To be determined'' \<notin> set severity_priority \<and>
   analyze_text
     \<lparr>call_diagnostic_ollama = (\<lambda>text. []),
      call_ollama = (\<lambda>text. Inr ''{}''),
      json_loads = (\<lambda>t. Some (Dict (Some
         [\<lparr>raw_Term = Some ''dizziness'', raw_Severity = Some ''To be determined''\<rparr>]))),
      py_eval = (\<lambda>t. None)\<rparr>
     {} {} {} (JsonBody (Some ''Patient felt dizzy''))
   = Ok200 [''Adverse_Event_Terms'' \<mapsto> ''dizziness'',
            ''Side_Effect_Severity'' \<mapsto> ''None of the above'',
            ''Side_Effect_Seriousness'' \<mapsto> ''Non-Serious'']"
proof -
  let ?E = "\<lparr>call_diagnostic_ollama = (\<lambda>text. []),
      call_ollama = (\<lambda>text. Inr ''{}''),
      json_loads = (\<lambda>t. Some (Dict (Some
         [\<lparr>raw_Term = Some ''dizziness'', raw_Severity = Some ''To be determined''\<rparr>]))),
      py_eval = (\<lambda>t. None)\<rparr>"
  let ?e = "\<lparr>Term = ''dizziness'', Severity = ''To be determined'', Is_Diagnosis = False\<rparr>"
  have nonblank: "strip ''Patient felt dizzy'' \<noteq> []"
    by (simp add: strip_def isspace_def)
  have st: "strip ''dizziness'' = ''dizziness''" by (simp add: strip_def isspace_def)
  have lw: "strip (lower ''dizziness'') = ''dizziness''" by (simp add: string_eval)
  have csv: "check_csv_severity ''dizziness'' {} {} {} = None"
    by (simp add: check_csv_severity_def any_keyword_in_def)
  have ser: "seriousness_of ''None of the above'' = ''Non-Serious''"
    by (simp add: seriousness_of_def severity_priority_def)
  have res: "resolve_event {} {} {} ?e =
      Some (''dizziness'', ''None of the above'', ''Non-Serious'')"
    by (simp add: resolve_event_def Let_def st csv ser)
  have parse: "safe_json_loads (json_loads ?E) (py_eval ?E) ''{}'' =
      Inr (Dict (Some [\<lparr>raw_Term = Some ''dizziness'', raw_Severity = Some ''To be determined''\<rparr>]))"
    by (simp add: safe_json_loads_def parsing_strategies_def)
  have dd: "deduplicate [\<lparr>raw_Term = Some ''dizziness'', raw_Severity = Some ''To be determined''\<rparr>]
      = [?e]"
    by (simp add: deduplicate_def Let_def st)
  have ext: "extract_medical_information ?E t = Inr [?e]" for t
    using parse by (simp add: extract_medical_information_def Let_def dd strip_def)
  have resp: "analyze_text ?E {} {} {} (JsonBody (Some ''Patient felt dizzy'')) =
      Ok200 [''Adverse_Event_Terms'' \<mapsto> ''dizziness'',
            ''Side_Effect_Severity'' \<mapsto> ''None of the above'',
            ''Side_Effect_Seriousness'' \<mapsto> ''Non-Serious'']"
    using nonblank by (simp add: analyze_text_def Let_def ext assemble_def res)
  have "''To be determined'' \<notin> set severity_priority"
    by (simp add: severity_priority_def)
  with resp show ?thesis by blast
qed

text \<open>
  Claim C10, amended. A record that is not a diagnosis, whose term matches no corpus tier
  and whose oracle severity is a string that is not blank, is not the placeholder
  \<open>To be determined\<close> and is outside the seven values of \<open>severity_priority\<close>, is written
  to the response with that string as its severity and with seriousness \<open>Non-Serious\<close>:
  the seriousness is decided by membership in the list without its last element.
\<close>

theorem unlisted_severity_emitted_verbatim:
  assumes "k < length result" and "k < 5"
      and "\<not> Is_Diagnosis (result ! k)"
      and "strip (Term (result ! k)) \<noteq> []"
      and "check_csv_severity (strip (Term (result ! k))) ms sd ca = None"
      and "strip (Severity (result ! k)) \<noteq> []"
      and "Severity (result ! k) \<noteq> ''To be determined''"
      and "Severity (result ! k) \<notin> set severity_priority"
  shows "fields_at (assemble ms sd ca result) (Suc k) =
           (Some (strip (Term (result ! k))), Some (Severity (result ! k)), Some ''Non-Serious'')"
proof -
  let ?e = "result ! k"
  from assms(6) have ne: "Severity ?e \<noteq> []" by (auto simp: strip_def)
  from assms(8) have ser: "seriousness_of (Severity ?e) = ''Non-Serious''"
    by (auto simp: seriousness_of_def severity_priority_def)
  have "resolve_event ms sd ca ?e = Some (strip (Term ?e), Severity ?e, ''Non-Serious'')"
    using assms(3-7) ne ser by (simp add: resolve_event_def Let_def)
  with fields_at_assemble [OF assms(1,2), of ms sd ca] show ?thesis by simp
qed

theorem unlisted_severity_emitted_verbatim_witness:
  "assemble {''hepatitis''} {''paralysis''} {''cleft palate''}
     [\<lparr>Term = ''dizziness'', Severity = ''Severe'', Is_Diagnosis = False\<rparr>]
     ''Side_Effect_Severity'' = Some ''Severe'' \<and>
   assemble {''hepatitis''} {''paralysis''} {''cleft palate''}
     [\<lparr>Term = ''dizziness'', Severity = ''Severe'', Is_Diagnosis = False\<rparr>]
     ''Side_Effect_Seriousness'' = Some ''Non-Serious''"
proof -
  let ?e = "\<lparr>Term = ''dizziness'', Severity = ''Severe'', Is_Diagnosis = False\<rparr>"
  have st: "strip ''dizziness'' = ''dizziness''" by (simp add: strip_def isspace_def)
  have a: "0 < length [?e]" by simp
  have b: "(0::nat) < 5" by simp
  have c: "\<not> Is_Diagnosis ([?e] ! 0)" by simp
  have d: "strip (Term ([?e] ! 0)) \<noteq> []" by (simp add: st)
  have e: "check_csv_severity (strip (Term ([?e] ! 0)))
             {''hepatitis''} {''paralysis''} {''cleft palate''} = None"
    by (simp add: st check_csv_severity_def any_keyword_in_def string_eval)
  have f: "strip (Severity ([?e] ! 0)) \<noteq> []" by (simp add: strip_def isspace_def)
  have g: "Severity ([?e] ! 0) \<noteq> ''To be determined''" by simp
  have h: "Severity ([?e] ! 0) \<notin> set severity_priority" by (simp add: severity_priority_def)
  from unlisted_severity_emitted_verbatim [OF a b c d e f g h]
  show ?thesis by (simp add: fields_at_def field_name_def)
qed

end
